theory Spec2Isabelle
  imports Complex_Main
begin

section \<open>Bubble Rhythm: the timing and judgment core of main.js\<close>

text \<open>
  The embedding follows \<^verbatim>\<open>src/main.js\<close>. JavaScript numbers are modelled as exact
  reals (rounding of IEEE doubles is not modelled); the counters of \<^verbatim>\<open>STATE\<close>, which the
  program only ever sets to 0 or increments by 1, are natural numbers. The DOM (canvas,
  HUD elements, toast text) is outside the model; the one field of \<^verbatim>\<open>STATE\<close> that
  \<^verbatim>\<open>toast\<close> writes, \<^verbatim>\<open>toastTimer\<close>, is kept. Every read of \<^verbatim>\<open>performance.now()\<close> is
  a parameter of the function that performs it: \<open>now\<close> for the read inside
  \<^verbatim>\<open>getSongTimeMs\<close> or \<^verbatim>\<open>togglePause\<close>, \<open>tnow\<close> for the read inside \<^verbatim>\<open>toast\<close>.
\<close>

subsection \<open>CONFIG\<close>

definition PREEMPT_MS :: real where "PREEMPT_MS = 900"
definition HIT_WINDOW_MS :: real where "HIT_WINDOW_MS = 160"
definition AFTER_MS :: real where "AFTER_MS = 260"
definition BASE_RADIUS_PX :: real where "BASE_RADIUS_PX = 34"
definition PERFECT_MS :: real where "PERFECT_MS = 45"
definition GOOD_MS :: real where "GOOD_MS = 90"
definition OK_MS :: real where "OK_MS = 140"
definition SCORE_PERFECT :: real where "SCORE_PERFECT = 300"
definition SCORE_GOOD :: real where "SCORE_GOOD = 150"
definition SCORE_OK :: real where "SCORE_OK = 60"
definition SCORE_MISS :: real where "SCORE_MISS = 0"
definition COMBO_BONUS :: real where "COMBO_BONUS = 6 / 100"
definition KEY_HIT :: string where "KEY_HIT = ''KeyE''"

subsection \<open>Utilities\<close>

definition clamp :: "real \<Rightarrow> real \<Rightarrow> real \<Rightarrow> real" where
  "clamp v a b = max a (min b v)"

definition lerp :: "real \<Rightarrow> real \<Rightarrow> real \<Rightarrow> real" where
  "lerp a b t = a + (b - a) * t"

definition dist2 :: "real \<Rightarrow> real \<Rightarrow> real \<Rightarrow> real \<Rightarrow> real" where
  "dist2 ax ay bx by = (let dx = ax - bx; dy = ay - by in dx * dx + dy * dy)"

subsection \<open>Data\<close>

text \<open>
  A note of the beatmap, \<^verbatim>\<open>{ tMs, xN, yN, rN? }\<close>. The field \<^verbatim>\<open>tMs\<close> is called
  \<open>def_tMs\<close> here, since the runtime note has a field of the same name.
\<close>

record note_def =
  def_tMs :: real
  xN :: real
  yN :: real
  rN :: "real option"

record beatmap_rec =
  title :: string
  durationMs :: real
  bm_notes :: "note_def list"

text \<open>The strings \<^verbatim>\<open>"pending"\<close>, \<^verbatim>\<open>"hit"\<close>, \<^verbatim>\<open>"miss"\<close> of the field \<^verbatim>\<open>state\<close>.\<close>

datatype note_state = Pending | Hit | Miss

text \<open>The strings \<^verbatim>\<open>"P"\<close>, \<^verbatim>\<open>"G"\<close>, \<^verbatim>\<open>"O"\<close>, \<^verbatim>\<open>"M"\<close> of the field \<^verbatim>\<open>judgment\<close>.\<close>

datatype judgment_tag = J_P | J_G | J_O | J_M

text \<open>
  The object built by \<^verbatim>\<open>makeRuntimeNote\<close>. Its fields \<^verbatim>\<open>x\<close>, \<^verbatim>\<open>y\<close>, \<^verbatim>\<open>r\<close>, \<^verbatim>\<open>state\<close>
  and \<^verbatim>\<open>judgment\<close> are \<open>px\<close>, \<open>py\<close>, \<open>radius\<close>, \<open>nstate\<close>, \<open>njudgment\<close>; \<^verbatim>\<open>null\<close> is \<open>None\<close>.
\<close>

record runtime_note =
  tMs :: real
  px :: real
  py :: real
  radius :: real
  nstate :: note_state
  judgedAtMs :: "real option"
  deltaMs :: "real option"
  njudgment :: "judgment_tag option"

text \<open>
  The global \<^verbatim>\<open>STATE\<close> object, with the module variables \<^verbatim>\<open>cssW\<close>, \<^verbatim>\<open>cssH\<close>, \<^verbatim>\<open>dpr\<close>
  beside it. The counters \<^verbatim>\<open>p\<close>, \<^verbatim>\<open>g\<close>, \<^verbatim>\<open>o\<close>, \<^verbatim>\<open>m\<close> are \<open>pCnt\<close>, \<open>gCnt\<close>, \<open>oCnt\<close>,
  \<open>mCnt\<close> (the names of their HUD elements).
\<close>

record game_state =
  running :: bool
  paused :: bool
  ended :: bool
  startAtPerfMs :: real
  pauseAtPerfMs :: real
  pausedTotalMs :: real
  cursorX :: real
  cursorY :: real
  score :: real
  combo :: nat
  maxCombo :: nat
  pCnt :: nat
  gCnt :: nat
  oCnt :: nat
  mCnt :: nat
  totalJudged :: nat
  totalHit :: nat
  toastTimer :: real
  beatmap :: "beatmap_rec option"
  noteStates :: "runtime_note list"
  cssW :: real
  cssH :: real
  dpr :: real

text \<open>Reading a property of \<^verbatim>\<open>null\<close> or \<^verbatim>\<open>undefined\<close> throws.\<close>

datatype js_error = TypeError

subsection \<open>Runtime notes\<close>

text \<open>
  \<^verbatim>\<open>noteDef.rN ? clamp(noteDef.rN, 0.6, 1.6) : 1.0\<close>: a missing \<^verbatim>\<open>rN\<close> and the number 0
  are both falsy.
\<close>

definition makeRuntimeNote :: "note_def \<Rightarrow> real \<Rightarrow> real \<Rightarrow> real \<Rightarrow> runtime_note" where
  "makeRuntimeNote noteDef x y radiusPx =
     \<lparr> tMs = def_tMs noteDef,
       px = x,
       py = y,
       radius = radiusPx *
         (case rN noteDef of
            None \<Rightarrow> 1
          | Some v \<Rightarrow> if v = 0 then 1 else clamp v (6 / 10) (16 / 10)),
       nstate = Pending,
       judgedAtMs = None,
       deltaMs = None,
       njudgment = None \<rparr>"

definition toast :: "game_state \<Rightarrow> real \<Rightarrow> game_state" where
  "toast st tnow = st\<lparr>toastTimer := tnow\<rparr>"

definition rebuildRuntimeNotes :: "game_state \<Rightarrow> js_error + game_state" where
  "rebuildRuntimeNotes st =
     (let safePad = max 26 (min (cssW st) (cssH st) * (8 / 100));
          left = safePad;
          right = cssW st - safePad;
          topY = safePad;
          bottom = cssH st - safePad;
          baseR = max 18 (min BASE_RADIUS_PX (min (cssW st) (cssH st) * (55 / 1000)))
      in case beatmap st of
           None \<Rightarrow> Inl TypeError
         | Some bm \<Rightarrow>
             Inr (st\<lparr>noteStates :=
               map (\<lambda>n. makeRuntimeNote n
                          (lerp left right (clamp (xN n) 0 1))
                          (lerp topY bottom (clamp (yN n) 0 1))
                          baseR)
                   (bm_notes bm)\<rparr>))"

text \<open>
  \<^verbatim>\<open>resizeCanvas\<close>: \<open>rectW\<close> and \<open>rectH\<close> are the bounding rectangle of the canvas,
  \<open>devicePixelRatio\<close> is \<^verbatim>\<open>window.devicePixelRatio\<close> (\<^verbatim>\<open>|| 1\<close> replaces 0).
\<close>

definition resizeCanvas :: "game_state \<Rightarrow> real \<Rightarrow> real \<Rightarrow> real \<Rightarrow> js_error + game_state" where
  "resizeCanvas st rectW rectH devicePixelRatio =
     (let st1 = st\<lparr>cssW := max 1 (of_int \<lfloor>rectW\<rfloor>), cssH := max 1 (of_int \<lfloor>rectH\<rfloor>)\<rparr>;
          st2 = st1\<lparr>dpr := max 1 (min (25 / 10)
                   (if devicePixelRatio = 0 then 1 else devicePixelRatio))\<rparr>
      in case beatmap st2 of
           None \<Rightarrow> Inr st2
         | Some _ \<Rightarrow> rebuildRuntimeNotes st2)"

definition resetGameState :: "game_state \<Rightarrow> js_error + game_state" where
  "resetGameState st =
     rebuildRuntimeNotes
       (st\<lparr>running := False, paused := False, ended := False,
           startAtPerfMs := 0, pauseAtPerfMs := 0, pausedTotalMs := 0,
           score := 0, combo := 0, maxCombo := 0,
           pCnt := 0, gCnt := 0, oCnt := 0, mCnt := 0,
           totalJudged := 0, totalHit := 0\<rparr>)"

subsection \<open>HUD computations\<close>

definition computeAccuracy :: "game_state \<Rightarrow> real" where
  "computeAccuracy st =
     (let denom = max 1 (real (totalJudged st));
          num = real (pCnt st) * 1 + real (gCnt st) * (75 / 100) + real (oCnt st) * (45 / 100)
      in num / denom)"

definition countNotesLeft :: "game_state \<Rightarrow> nat" where
  "countNotesLeft st = length (filter (\<lambda>n. nstate n = Pending) (noteStates st))"

subsection \<open>Timing\<close>

definition getSongTimeMs :: "game_state \<Rightarrow> real \<Rightarrow> real" where
  "getSongTimeMs st now =
     (if \<not> running st then 0
      else if paused st then pauseAtPerfMs st - startAtPerfMs st - pausedTotalMs st
      else now - startAtPerfMs st - pausedTotalMs st)"

definition togglePause :: "game_state \<Rightarrow> real \<Rightarrow> real \<Rightarrow> game_state" where
  "togglePause st now tnow =
     (if \<not> running st \<or> ended st then st
      else if \<not> paused st then
        toast (st\<lparr>paused := True, pauseAtPerfMs := now\<rparr>) tnow
      else
        (let st1 = st\<lparr>paused := False\<rparr>;
             resumeAt = now
         in toast (st1\<lparr>pausedTotalMs := pausedTotalMs st1 + (resumeAt - pauseAtPerfMs st1)\<rparr>) tnow))"

subsection \<open>Hit resolution\<close>

definition judge :: "real \<Rightarrow> judgment_tag" where
  "judge dMs =
     (let a = \<bar>dMs\<bar>
      in if a \<le> PERFECT_MS then J_P
         else if a \<le> GOOD_MS then J_G
         else if a \<le> OK_MS then J_O
         else J_O)"

text \<open>
  \<^verbatim>\<open>applyJudgment(note, judgedAtMs, deltaMs, judgment)\<close>. The note object is shared with
  \<^verbatim>\<open>STATE.noteStates\<close>; the reference is its index \<open>i\<close> in that array.
\<close>

definition applyJudgment ::
  "game_state \<Rightarrow> real \<Rightarrow> nat \<Rightarrow> real \<Rightarrow> real \<Rightarrow> judgment_tag \<Rightarrow> game_state" where
  "applyJudgment st tnow i judgedAt dMs j =
     (let st1 = st\<lparr>noteStates := (noteStates st)
                   [i := (noteStates st ! i)\<lparr>nstate := Hit, judgedAtMs := Some judgedAt,
                                             deltaMs := Some dMs, njudgment := Some j\<rparr>]\<rparr>;
          st2 = st1\<lparr>totalJudged := totalJudged st1 + 1\<rparr>;
          st3 = st2\<lparr>totalHit := totalHit st2 + 1\<rparr>;
          st4 = st3\<lparr>combo := combo st3 + 1\<rparr>;
          st5 = st4\<lparr>maxCombo := max (maxCombo st4) (combo st4)\<rparr>;
          (st6, base) =
            (if j = J_P then (toast (st5\<lparr>pCnt := pCnt st5 + 1\<rparr>) tnow, SCORE_PERFECT)
             else if j = J_G then (toast (st5\<lparr>gCnt := gCnt st5 + 1\<rparr>) tnow, SCORE_GOOD)
             else (toast (st5\<lparr>oCnt := oCnt st5 + 1\<rparr>) tnow, SCORE_OK));
          mult = 1 + (real (combo st6) - 1) * COMBO_BONUS
      in st6\<lparr>score := score st6 + base * mult\<rparr>)"

text \<open>An entry of \<^verbatim>\<open>candidates\<close>: \<^verbatim>\<open>{ n, absDelta, delta, d2 }\<close>, \<open>c_n\<close> the index of the note.\<close>

record candidate =
  c_n :: nat
  c_absDelta :: real
  c_delta :: real
  c_d2 :: real

text \<open>
  The loop that fills \<^verbatim>\<open>candidates\<close>, over the notes from index \<open>i\<close> on; each
  \<^verbatim>\<open>continue\<close> is a branch that skips the note.
\<close>

fun collectCandidates ::
  "real \<Rightarrow> real \<Rightarrow> real \<Rightarrow> nat \<Rightarrow> runtime_note list \<Rightarrow> candidate list" where
  "collectCandidates cx cy t i [] = []"
| "collectCandidates cx cy t i (n # ns) =
     (if nstate n \<noteq> Pending then collectCandidates cx cy t (Suc i) ns
      else
        (let d = t - tMs n
         in if \<bar>d\<bar> > HIT_WINDOW_MS then collectCandidates cx cy t (Suc i) ns
            else
              (let inside = (dist2 cx cy (px n) (py n) \<le> radius n * radius n)
               in if \<not> inside then collectCandidates cx cy t (Suc i) ns
                  else \<lparr>c_n = i, c_absDelta = \<bar>d\<bar>, c_delta = d,
                        c_d2 = dist2 cx cy (px n) (py n)\<rparr>
                       # collectCandidates cx cy t (Suc i) ns)))"

text \<open>The comparator passed to \<^verbatim>\<open>candidates.sort\<close>.\<close>

definition compareCandidates :: "candidate \<Rightarrow> candidate \<Rightarrow> real" where
  "compareCandidates a b =
     (if c_absDelta a \<noteq> c_absDelta b then c_absDelta a - c_absDelta b
      else c_d2 a - c_d2 b)"

text \<open>
  \<^verbatim>\<open>Array.prototype.sort\<close> with a comparator is a stable sort (ECMAScript 2019): elements
  that compare equal keep their order. It is modelled by stable insertion sort.
\<close>

fun sortInsert :: "('a \<Rightarrow> 'a \<Rightarrow> real) \<Rightarrow> 'a \<Rightarrow> 'a list \<Rightarrow> 'a list" where
  "sortInsert cmp a [] = [a]"
| "sortInsert cmp a (b # bs) =
     (if cmp a b \<le> 0 then a # b # bs else b # sortInsert cmp a bs)"

fun arraySort :: "('a \<Rightarrow> 'a \<Rightarrow> real) \<Rightarrow> 'a list \<Rightarrow> 'a list" where
  "arraySort cmp [] = []"
| "arraySort cmp (a # as) = sortInsert cmp a (arraySort cmp as)"

definition attemptHit :: "game_state \<Rightarrow> real \<Rightarrow> real \<Rightarrow> real \<Rightarrow> real \<Rightarrow> game_state" where
  "attemptHit st now tnow cx cy =
     (let t = getSongTimeMs st now;
          candidates = collectCandidates cx cy t 0 (noteStates st)
      in if length candidates = 0 then toast st tnow
         else
           (let sorted = arraySort compareCandidates candidates;
                pick = c_n (hd sorted);
                d = t - tMs (noteStates st ! pick);
                j = judge d
            in applyJudgment st tnow pick t d j))"

text \<open>
  The index of the note \<^verbatim>\<open>attemptHit\<close> picks at song time \<open>t\<close>, \<open>None\<close> when it returns
  at \<^verbatim>\<open>candidates.length === 0\<close>.
\<close>

definition attemptHitPick :: "real \<Rightarrow> real \<Rightarrow> real \<Rightarrow> runtime_note list \<Rightarrow> nat option" where
  "attemptHitPick cx cy t ns =
     (let candidates = collectCandidates cx cy t 0 ns
      in if length candidates = 0 then None
         else Some (c_n (hd (arraySort compareCandidates candidates))))"

subsection \<open>Miss processing\<close>

text \<open>
  The loop of \<^verbatim>\<open>processAutoMisses\<close> over the remaining notes; it returns the notes as
  it leaves them and the state with its counters updated.
\<close>

fun processAutoMissesLoop ::
  "real \<Rightarrow> runtime_note list \<Rightarrow> game_state \<Rightarrow> runtime_note list \<times> game_state" where
  "processAutoMissesLoop currentMs [] st = ([], st)"
| "processAutoMissesLoop currentMs (n # ns) st =
     (if nstate n \<noteq> Pending then
        (let (ns', st') = processAutoMissesLoop currentMs ns st in (n # ns', st'))
      else if currentMs > tMs n + HIT_WINDOW_MS then
        (let n' = n\<lparr>nstate := Miss, judgedAtMs := Some currentMs,
                     deltaMs := Some (currentMs - tMs n), njudgment := Some J_M\<rparr>;
             st1 = st\<lparr>totalJudged := totalJudged st + 1\<rparr>;
             st2 = st1\<lparr>mCnt := mCnt st1 + 1\<rparr>;
             st3 = st2\<lparr>combo := 0\<rparr>;
             (ns', st') = processAutoMissesLoop currentMs ns st3
         in (n' # ns', st'))
      else
        (let (ns', st') = processAutoMissesLoop currentMs ns st in (n # ns', st')))"

definition processAutoMisses :: "game_state \<Rightarrow> real \<Rightarrow> game_state" where
  "processAutoMisses st currentMs =
     (let (ns', st') = processAutoMissesLoop currentMs (noteStates st) st
      in st'\<lparr>noteStates := ns'\<rparr>)"

subsection \<open>Main loop\<close>

text \<open>
  The state part of \<^verbatim>\<open>tick\<close> (rendering and the HUD only read the state).
  \<^verbatim>\<open>STATE.noteStates[STATE.noteStates.length - 1]\<close> is \<^verbatim>\<open>undefined\<close> on an empty array,
  and reading \<^verbatim>\<open>last.tMs\<close> then throws.
\<close>

definition tick :: "game_state \<Rightarrow> real \<Rightarrow> real \<Rightarrow> js_error + game_state" where
  "tick st now tnow =
     (let t = getSongTimeMs st now
      in if running st \<and> \<not> paused st \<and> \<not> ended st then
           (let st1 = processAutoMisses st t
            in case rev (noteStates st1) of
                 [] \<Rightarrow> Inl TypeError
               | lastNote # _ \<Rightarrow>
                   (let endAt = tMs lastNote + HIT_WINDOW_MS + AFTER_MS + 200
                    in if t > endAt \<and> countNotesLeft st1 = 0
                       then Inr (toast (st1\<lparr>ended := True\<rparr>) tnow)
                       else Inr st1))
         else Inr st)"

subsection \<open>Input\<close>

text \<open>
  The handlers take the fields of the event they read: the button and client position
  of a mouse event, the client position of \<^verbatim>\<open>changedTouches[0]\<close>, \<^verbatim>\<open>repeat\<close> and
  \<^verbatim>\<open>code\<close> of a key event; \<open>rectLeft\<close>, \<open>rectTop\<close> are the canvas rectangle's corner.
\<close>

definition mousedown ::
  "game_state \<Rightarrow> real \<Rightarrow> real \<Rightarrow> int \<Rightarrow> real \<Rightarrow> real \<Rightarrow> real \<Rightarrow> real \<Rightarrow> game_state" where
  "mousedown st now tnow button clientX clientY rectLeft rectTop =
     (if button \<noteq> 0 then st
      else if \<not> running st then st
      else if paused st \<or> ended st then st
      else
        (let st1 = st\<lparr>cursorX := clientX - rectLeft\<rparr>;
             st2 = st1\<lparr>cursorY := clientY - rectTop\<rparr>
         in attemptHit st2 now tnow (cursorX st2) (cursorY st2)))"

definition touchstart ::
  "game_state \<Rightarrow> real \<Rightarrow> real \<Rightarrow> real \<Rightarrow> real \<Rightarrow> real \<Rightarrow> real \<Rightarrow> game_state" where
  "touchstart st now tnow clientX clientY rectLeft rectTop =
     (if \<not> running st then st
      else if paused st \<or> ended st then st
      else
        (let x = clientX - rectLeft;
             y = clientY - rectTop;
             st1 = st\<lparr>cursorX := x\<rparr>;
             st2 = st1\<lparr>cursorY := y\<rparr>
         in attemptHit st2 now tnow x y))"

definition keydown :: "game_state \<Rightarrow> real \<Rightarrow> real \<Rightarrow> bool \<Rightarrow> string \<Rightarrow> game_state" where
  "keydown st now tnow repeat code =
     (if repeat then st
      else if code = KEY_HIT \<and> \<not> running st then st
      else if code = KEY_HIT \<and> (paused st \<or> ended st) then st
      else
        (let st1 = (if code = KEY_HIT then attemptHit st now tnow (cursorX st) (cursorY st)
                    else st)
         in if code = ''Space'' then
              (if \<not> running st1 \<or> ended st1 then st1 else togglePause st1 now tnow)
            else st1))"

subsection \<open>The initial state\<close>

text \<open>The literal that initialises \<^verbatim>\<open>STATE\<close>, with \<^verbatim>\<open>cssW = 0\<close>, \<^verbatim>\<open>cssH = 0\<close>, \<^verbatim>\<open>dpr = 1\<close>.\<close>

definition STATE_init :: game_state where
  "STATE_init =
     \<lparr> running = False, paused = False, ended = False,
       startAtPerfMs = 0, pauseAtPerfMs = 0, pausedTotalMs = 0,
       cursorX = 0, cursorY = 0,
       score = 0, combo = 0, maxCombo = 0,
       pCnt = 0, gCnt = 0, oCnt = 0, mCnt = 0,
       totalJudged = 0, totalHit = 0,
       toastTimer = 0,
       beatmap = None, noteStates = [],
       cssW = 0, cssH = 0, dpr = 1 \<rparr>"

subsection \<open>Auxiliary notions for the statements\<close>

text \<open>
  The test a note passes to enter \<^verbatim>\<open>candidates\<close>: none of the three \<^verbatim>\<open>continue\<close> guards of
  the loop in \<^verbatim>\<open>attemptHit\<close> fires.
\<close>

definition hittable :: "real \<Rightarrow> real \<Rightarrow> real \<Rightarrow> runtime_note \<Rightarrow> bool" where
  "hittable cx cy t n \<longleftrightarrow>
     nstate n = Pending \<and> \<bar>t - tMs n\<bar> \<le> HIT_WINDOW_MS \<and>
     dist2 cx cy (px n) (py n) \<le> radius n * radius n"

text \<open>The entry that the loop pushes for the note \<open>n\<close> at index \<open>i\<close>.\<close>

definition candidateOf :: "real \<Rightarrow> real \<Rightarrow> real \<Rightarrow> nat \<Rightarrow> runtime_note \<Rightarrow> candidate" where
  "candidateOf cx cy t i n =
     \<lparr>c_n = i, c_absDelta = \<bar>t - tMs n\<bar>, c_delta = t - tMs n,
      c_d2 = dist2 cx cy (px n) (py n)\<rparr>"

text \<open>The effect of one iteration of the loop of \<^verbatim>\<open>processAutoMisses\<close> on its note.\<close>

definition missNote :: "real \<Rightarrow> runtime_note \<Rightarrow> runtime_note" where
  "missNote t n =
     (if nstate n = Pending \<and> t > tMs n + HIT_WINDOW_MS
      then n\<lparr>nstate := Miss, judgedAtMs := Some t, deltaMs := Some (t - tMs n),
             njudgment := Some J_M\<rparr>
      else n)"

text \<open>The number of iterations of that loop that enter the miss branch.\<close>

definition overdue :: "real \<Rightarrow> runtime_note list \<Rightarrow> nat" where
  "overdue t ns = length (filter (\<lambda>n. nstate n = Pending \<and> t > tMs n + HIT_WINDOW_MS) ns)"

text \<open>
  A runtime note as \<^verbatim>\<open>makeRuntimeNote\<close> builds it, at time \<open>t\<close> and pixel position
  \<open>(x, y)\<close> with radius 34, for the examples.
\<close>

definition exampleNote :: "real \<Rightarrow> real \<Rightarrow> real \<Rightarrow> runtime_note" where
  "exampleNote t x y = makeRuntimeNote \<lparr>def_tMs = t, xN = 0, yN = 0, rN = None\<rparr> x y 34"

section \<open>Properties\<close>

subsection \<open>Judgment tiers\<close>

text \<open>
  Claim C5. For every timing offset \<open>d\<close>, \<open>judge d\<close> is Perfect when \<open>\<bar>d\<bar> \<le> 45\<close>, Good when
  \<open>45 < \<bar>d\<bar> \<le> 90\<close> and Ok for every larger \<open>\<bar>d\<bar>\<close>, also beyond the Ok threshold 140;
  it is never Miss.
\<close>

theorem judge_tiers:
  "judge d = (if \<bar>d\<bar> \<le> 45 then J_P else if \<bar>d\<bar> \<le> 90 then J_G else J_O) \<and> judge d \<noteq> J_M"
  by (simp add: judge_def PERFECT_MS_def GOOD_MS_def OK_MS_def Let_def)

theorem judge_tiers_witness:
  "judge 10 = J_P \<and> judge (- 45) = J_P \<and> judge 46 = J_G \<and> judge (- 90) = J_G \<and>
   judge 91 = J_O \<and> judge 150 = J_O \<and> judge (- 160) = J_O"
  using judge_tiers [of 10] judge_tiers [of "- 45"] judge_tiers [of 46] judge_tiers [of "- 90"]
    judge_tiers [of 91] judge_tiers [of 150] judge_tiers [of "- 160"]
  by simp

subsection \<open>The song clock\<close>

text \<open>
  Claim C6. The elapsed time is 0 while the game is not running; it is
  \<open>now - startAtPerfMs - pausedTotalMs\<close> while running and not paused; while paused it is
  \<open>pauseAtPerfMs - startAtPerfMs - pausedTotalMs\<close>, the same at every later clock reading.
  Pausing a live run at \<open>now\<close> freezes the elapsed time at its value at \<open>now\<close>.
\<close>

theorem getSongTimeMs_cases:
  "(\<not> running st \<longrightarrow> getSongTimeMs st now = 0) \<and>
   (running st \<and> \<not> paused st \<longrightarrow>
      getSongTimeMs st now = now - startAtPerfMs st - pausedTotalMs st) \<and>
   (running st \<and> paused st \<longrightarrow>
      getSongTimeMs st now = pauseAtPerfMs st - startAtPerfMs st - pausedTotalMs st \<and>
      getSongTimeMs st later = getSongTimeMs st now) \<and>
   (running st \<and> \<not> paused st \<and> \<not> ended st \<longrightarrow>
      getSongTimeMs (togglePause st now tnow) later = getSongTimeMs st now)"
  by (simp add: getSongTimeMs_def togglePause_def toast_def Let_def)

theorem getSongTimeMs_cases_witness:
  "getSongTimeMs STATE_init 5000 = 0 \<and>
   getSongTimeMs (STATE_init\<lparr>running := True, startAtPerfMs := 1000, pausedTotalMs := 200\<rparr>)
     5000 = 3800 \<and>
   getSongTimeMs (STATE_init\<lparr>running := True, paused := True, startAtPerfMs := 1000,
       pauseAtPerfMs := 3000, pausedTotalMs := 200\<rparr>) 5000 = 1800 \<and>
   getSongTimeMs (STATE_init\<lparr>running := True, paused := True, startAtPerfMs := 1000,
       pauseAtPerfMs := 3000, pausedTotalMs := 200\<rparr>) 9000 = 1800 \<and>
   getSongTimeMs (togglePause
       (STATE_init\<lparr>running := True, startAtPerfMs := 1000, pausedTotalMs := 200\<rparr>)
       5000 5001) 9000 = 3800"
  using getSongTimeMs_cases [of STATE_init 5000 9000 5001]
    getSongTimeMs_cases
      [of "STATE_init\<lparr>running := True, startAtPerfMs := 1000, pausedTotalMs := 200\<rparr>"
          5000 9000 5001]
    getSongTimeMs_cases
      [of "STATE_init\<lparr>running := True, paused := True, startAtPerfMs := 1000,
             pauseAtPerfMs := 3000, pausedTotalMs := 200\<rparr>" 5000 9000 5001]
  by (simp add: STATE_init_def)

subsection \<open>Accuracy\<close>

text \<open>
  Claim C9. The accuracy is \<open>(p * 1.0 + g * 0.75 + o * 0.45 + m * 0) / max 1 totalJudged\<close>;
  the denominator is never 0; when the four counts sum to \<open>totalJudged\<close> the accuracy lies
  in \<open>[0, 1]\<close>, and it is 0 when \<open>totalJudged = 0\<close>.
\<close>

theorem computeAccuracy_range:
  "computeAccuracy st =
     (real (pCnt st) * 1 + real (gCnt st) * (75 / 100) + real (oCnt st) * (45 / 100)
        + real (mCnt st) * 0) / max 1 (real (totalJudged st)) \<and>
   max 1 (real (totalJudged st)) \<noteq> 0 \<and>
   (pCnt st + gCnt st + oCnt st + mCnt st = totalJudged st \<longrightarrow>
      0 \<le> computeAccuracy st \<and> computeAccuracy st \<le> 1 \<and>
      (totalJudged st = 0 \<longrightarrow> computeAccuracy st = 0))"
proof -
  let ?num = "real (pCnt st) * 1 + real (gCnt st) * (75 / 100) + real (oCnt st) * (45 / 100)"
  let ?den = "max 1 (real (totalJudged st))"
  have eq: "computeAccuracy st = ?num / ?den"
    by (simp add: computeAccuracy_def Let_def)
  have den: "0 < ?den" by simp
  have nonneg: "0 \<le> ?num" by simp
  {
    assume s: "pCnt st + gCnt st + oCnt st + mCnt st = totalJudged st"
    have "?num \<le> real (pCnt st) + real (gCnt st) + real (oCnt st) + real (mCnt st)"
      by simp
    also have "\<dots> = real (totalJudged st)" using s by (simp flip: of_nat_add)
    also have "\<dots> \<le> ?den" by simp
    finally have le: "?num \<le> ?den" .
    have "0 \<le> ?num / ?den" using nonneg den by simp
    moreover have "?num / ?den \<le> 1" using le den by (simp add: divide_le_eq)
    moreover have "totalJudged st = 0 \<longrightarrow> ?num / ?den = 0" using s by auto
    ultimately have "0 \<le> computeAccuracy st \<and> computeAccuracy st \<le> 1 \<and>
      (totalJudged st = 0 \<longrightarrow> computeAccuracy st = 0)" using eq by simp
  }
  then show ?thesis using eq den by simp
qed

theorem computeAccuracy_range_witness:
  "computeAccuracy STATE_init = 0 \<and>
   computeAccuracy (STATE_init\<lparr>pCnt := 2, gCnt := 1, oCnt := 1, mCnt := 1, totalJudged := 5\<rparr>)
     = 64 / 100 \<and>
   0 \<le> computeAccuracy (STATE_init\<lparr>pCnt := 2, gCnt := 1, oCnt := 1, mCnt := 1,
          totalJudged := 5\<rparr>) \<and>
   computeAccuracy (STATE_init\<lparr>pCnt := 2, gCnt := 1, oCnt := 1, mCnt := 1,
          totalJudged := 5\<rparr>) \<le> 1"
  using computeAccuracy_range [of STATE_init]
    computeAccuracy_range
      [of "STATE_init\<lparr>pCnt := 2, gCnt := 1, oCnt := 1, mCnt := 1, totalJudged := 5\<rparr>"]
  by (simp add: STATE_init_def)

subsection \<open>Scoring a hit\<close>

text \<open>
  Claim C4. A hit of tier \<open>j\<close> increments the combo by 1, sets \<open>maxCombo\<close> to the maximum
  of its old value and the new combo, and adds \<open>base * (1 + (combo - 1) * 0.06)\<close> to the
  score, with the new combo and the base 300 for Perfect, 150 for Good and 60 for Ok
  (the last branch of the code); the count of the tier, \<open>totalJudged\<close> and \<open>totalHit\<close>
  grow by 1 and the miss count stays. From a combo and a score of 0, a Perfect hit gives
  combo 1 and score 300.
\<close>

theorem applyJudgment_scoring:
  "combo (applyJudgment st tnow i ja d j) = combo st + 1 \<and>
   maxCombo (applyJudgment st tnow i ja d j) = max (maxCombo st) (combo st + 1) \<and>
   score (applyJudgment st tnow i ja d j) =
     score st + (if j = J_P then 300 else if j = J_G then 150 else 60)
                * (1 + (real (combo st + 1) - 1) * (6 / 100)) \<and>
   pCnt (applyJudgment st tnow i ja d j) = pCnt st + (if j = J_P then 1 else 0) \<and>
   gCnt (applyJudgment st tnow i ja d j) = gCnt st + (if j = J_G then 1 else 0) \<and>
   oCnt (applyJudgment st tnow i ja d j) = oCnt st + (if j = J_P \<or> j = J_G then 0 else 1) \<and>
   mCnt (applyJudgment st tnow i ja d j) = mCnt st \<and>
   totalJudged (applyJudgment st tnow i ja d j) = totalJudged st + 1 \<and>
   totalHit (applyJudgment st tnow i ja d j) = totalHit st + 1 \<and>
   (combo st = 0 \<and> score st = 0 \<longrightarrow>
      combo (applyJudgment st tnow i ja d J_P) = 1 \<and>
      score (applyJudgment st tnow i ja d J_P) = 300)"
  by (simp add: applyJudgment_def toast_def Let_def SCORE_PERFECT_def SCORE_GOOD_def
      SCORE_OK_def COMBO_BONUS_def)

theorem applyJudgment_scoring_witness:
  "combo (applyJudgment STATE_init 0 0 1010 10 J_P) = 1 \<and>
   score (applyJudgment STATE_init 0 0 1010 10 J_P) = 300 \<and>
   combo (applyJudgment (STATE_init\<lparr>combo := 2, maxCombo := 5, score := 450\<rparr>) 0 0 1050 50 J_G)
     = 3 \<and>
   maxCombo (applyJudgment (STATE_init\<lparr>combo := 2, maxCombo := 5, score := 450\<rparr>) 0 0 1050 50
     J_G) = 5 \<and>
   score (applyJudgment (STATE_init\<lparr>combo := 2, maxCombo := 5, score := 450\<rparr>) 0 0 1050 50 J_G)
     = 618"
  using applyJudgment_scoring [of STATE_init 0 0 1010 10 J_P]
    applyJudgment_scoring
      [of "STATE_init\<lparr>combo := 2, maxCombo := 5, score := 450\<rparr>" 0 0 1050 50 J_G]
  by (simp add: STATE_init_def)

subsection \<open>The candidates of an activation\<close>

text \<open>Facts for evaluating the definitions on the examples.\<close>

lemmas eval_simps = exampleNote_def makeRuntimeNote_def attemptHitPick_def collectCandidates.simps
  compareCandidates_def dist2_def HIT_WINDOW_MS_def Let_def hittable_def STATE_init_def
  getSongTimeMs_def

lemma collect_step:
  "collectCandidates cx cy t i (n # ns) =
     (if hittable cx cy t n then candidateOf cx cy t i n # collectCandidates cx cy t (Suc i) ns
      else collectCandidates cx cy t (Suc i) ns)"
  by (auto simp: hittable_def candidateOf_def Let_def)

declare collectCandidates.simps(2) [simp del]

lemma collect_sound:
  "c \<in> set (collectCandidates cx cy t i ns) \<Longrightarrow>
     i \<le> c_n c \<and> c_n c < i + length ns \<and> hittable cx cy t (ns ! (c_n c - i)) \<and>
     c = candidateOf cx cy t (c_n c) (ns ! (c_n c - i))"
proof (induction ns arbitrary: i)
  case Nil
  then show ?case by simp
next
  case (Cons n ns)
  show ?case
  proof (cases "c = candidateOf cx cy t i n \<and> hittable cx cy t n")
    case True
    then show ?thesis by (simp add: candidateOf_def)
  next
    case False
    with Cons.prems have "c \<in> set (collectCandidates cx cy t (Suc i) ns)"
      by (auto simp: collect_step split: if_splits)
    from Cons.IH [OF this] show ?thesis
      by (auto simp: Suc_diff_le)
  qed
qed

lemma collect_complete:
  "k < length ns \<Longrightarrow> hittable cx cy t (ns ! k) \<Longrightarrow>
     candidateOf cx cy t (i + k) (ns ! k) \<in> set (collectCandidates cx cy t i ns)"
proof (induction ns arbitrary: i k)
  case Nil
  then show ?case by simp
next
  case (Cons n ns)
  show ?case
  proof (cases k)
    case 0
    with Cons.prems show ?thesis by (simp add: collect_step)
  next
    case (Suc k')
    with Cons.prems have "candidateOf cx cy t (Suc i + k') (ns ! k')
        \<in> set (collectCandidates cx cy t (Suc i) ns)"
      by (intro Cons.IH) simp_all
    with Suc show ?thesis by (simp add: collect_step)
  qed
qed

lemma collect_increasing:
  "sorted_wrt (\<lambda>a b. c_n a < c_n b) (collectCandidates cx cy t i ns)"
proof (induction ns arbitrary: i)
  case Nil
  then show ?case by simp
next
  case (Cons n ns)
  have "\<forall>c \<in> set (collectCandidates cx cy t (Suc i) ns). i < c_n c"
    using collect_sound [of _ cx cy t "Suc i" ns] by fastforce
  with Cons.IH [of "Suc i"] show ?case
    by (simp add: collect_step candidateOf_def)
qed

lemma compare_le:
  "compareCandidates a b \<le> 0 \<longleftrightarrow>
     c_absDelta a < c_absDelta b \<or> (c_absDelta a = c_absDelta b \<and> c_d2 a \<le> c_d2 b)"
  by (auto simp: compareCandidates_def)

lemma compare_less:
  "compareCandidates a b < 0 \<longleftrightarrow>
     c_absDelta a < c_absDelta b \<or> (c_absDelta a = c_absDelta b \<and> c_d2 a < c_d2 b)"
  by (auto simp: compareCandidates_def)

lemma hd_sortInsert:
  "hd (sortInsert cmp a bs) = (if bs = [] then a else if cmp a (hd bs) \<le> 0 then a else hd bs)"
  by (cases bs) simp_all

lemma sortInsert_nonempty: "sortInsert cmp a bs \<noteq> []"
  by (cases bs) simp_all

lemma arraySort_nonempty: "xs \<noteq> [] \<Longrightarrow> arraySort cmp xs \<noteq> []"
  by (cases xs) (simp_all add: sortInsert_nonempty)

text \<open>\<open>arraySort\<close> rearranges its input into comparator order.\<close>

lemma set_sortInsert: "set (sortInsert cmp a bs) = insert a (set bs)"
  by (induction bs) auto

lemma length_sortInsert: "length (sortInsert cmp a bs) = Suc (length bs)"
  by (induction bs) auto

lemma set_arraySort: "set (arraySort cmp xs) = set xs"
  by (induction xs) (simp_all add: set_sortInsert)

lemma length_arraySort: "length (arraySort cmp xs) = length xs"
  by (induction xs) (simp_all add: length_sortInsert)

lemma sorted_sortInsert:
  "sorted_wrt (\<lambda>a b. compareCandidates a b \<le> 0) bs \<Longrightarrow>
   sorted_wrt (\<lambda>a b. compareCandidates a b \<le> 0) (sortInsert compareCandidates a bs)"
proof (induction bs)
  case Nil
  then show ?case by simp
next
  case (Cons b bs)
  show ?case
  proof (cases "compareCandidates a b \<le> 0")
    case True
    moreover from True Cons.prems have "\<forall>c \<in> set bs. compareCandidates a c \<le> 0"
      by (auto simp: compare_le)
    ultimately show ?thesis using Cons.prems by simp
  next
    case False
    then have "compareCandidates b a \<le> 0" by (auto simp: compare_le)
    with False Cons show ?thesis by (simp add: set_sortInsert)
  qed
qed

lemma sorted_arraySort:
  "sorted_wrt (\<lambda>a b. compareCandidates a b \<le> 0) (arraySort compareCandidates xs)"
  by (induction xs) (simp_all add: sorted_sortInsert)

lemma hd_arraySort_split:
  "xs \<noteq> [] \<Longrightarrow>
     \<exists>ys zs. xs = ys @ hd (arraySort compareCandidates xs) # zs \<and>
       (\<forall>y \<in> set ys. compareCandidates (hd (arraySort compareCandidates xs)) y < 0) \<and>
       (\<forall>z \<in> set zs. compareCandidates (hd (arraySort compareCandidates xs)) z \<le> 0)"
proof (induction xs)
  case Nil
  then show ?case by simp
next
  case (Cons x xs)
  show ?case
  proof (cases "xs = []")
    case True
    then have "x # xs = [] @ hd (arraySort compareCandidates (x # xs)) # []"
      by simp
    then show ?thesis by fastforce
  next
    case False
    let ?h = "hd (arraySort compareCandidates xs)"
    from Cons.IH [OF False] obtain ys zs where
      split: "xs = ys @ ?h # zs" and
      before: "\<forall>y \<in> set ys. compareCandidates ?h y < 0" and
      after: "\<forall>z \<in> set zs. compareCandidates ?h z \<le> 0"
      by blast
    have ne: "arraySort compareCandidates xs \<noteq> []"
      using False by (rule arraySort_nonempty)
    show ?thesis
    proof (cases "compareCandidates x ?h \<le> 0")
      case True
      then have h: "hd (arraySort compareCandidates (x # xs)) = x"
        using ne by (simp add: hd_sortInsert)
      have "\<forall>z \<in> set xs. compareCandidates x z \<le> 0"
      proof
        fix z assume "z \<in> set xs"
        then have "z \<in> set ys \<or> z = ?h \<or> z \<in> set zs"
          by (subst (asm) split) auto
        then have "compareCandidates ?h z \<le> 0"
          using before after by (auto simp: compare_le compare_less)
        with True show "compareCandidates x z \<le> 0"
          by (auto simp: compare_le)
      qed
      then have "x # xs = [] @ x # xs \<and> (\<forall>y \<in> set []. compareCandidates x y < 0) \<and>
          (\<forall>z \<in> set xs. compareCandidates x z \<le> 0)"
        by simp
      then show ?thesis unfolding h by blast
    next
      case False
      then have h: "hd (arraySort compareCandidates (x # xs)) = ?h"
        using ne by (simp add: hd_sortInsert)
      from False have "compareCandidates ?h x < 0"
        by (auto simp: compare_le compare_less)
      with before have "\<forall>y \<in> set (x # ys). compareCandidates ?h y < 0"
        by simp
      moreover have "x # xs = (x # ys) @ ?h # zs"
        using split by simp
      ultimately show ?thesis unfolding h using after by blast
    qed
  qed
qed

lemma pick_char:
  assumes "collectCandidates cx cy t 0 ns \<noteq> []"
  shows "\<exists>i. attemptHitPick cx cy t ns = Some i \<and> i < length ns \<and> hittable cx cy t (ns ! i) \<and>
     (\<forall>k<length ns. hittable cx cy t (ns ! k) \<longrightarrow>
        (if k < i then compareCandidates (candidateOf cx cy t i (ns ! i))
                          (candidateOf cx cy t k (ns ! k)) < 0
         else compareCandidates (candidateOf cx cy t i (ns ! i))
                (candidateOf cx cy t k (ns ! k)) \<le> 0))"
proof -
  let ?cs = "collectCandidates cx cy t 0 ns"
  let ?h = "hd (arraySort compareCandidates ?cs)"
  from hd_arraySort_split [OF assms] obtain ys zs where
    split: "?cs = ys @ ?h # zs" and
    before: "\<forall>y \<in> set ys. compareCandidates ?h y < 0" and
    after: "\<forall>z \<in> set zs. compareCandidates ?h z \<le> 0"
    by blast
  have "?h \<in> set ?cs" by (subst split) simp
  from collect_sound [OF this]
  have hi: "c_n ?h < length ns" and hh: "hittable cx cy t (ns ! c_n ?h)"
    and heq: "?h = candidateOf cx cy t (c_n ?h) (ns ! c_n ?h)"
    by simp_all
  have inc: "sorted_wrt (\<lambda>a b. c_n a < c_n b) (ys @ ?h # zs)"
    using collect_increasing [of cx cy t 0 ns] split by simp
  have pick: "attemptHitPick cx cy t ns = Some (c_n ?h)"
    using assms by (simp add: attemptHitPick_def Let_def)
  have "\<forall>k<length ns. hittable cx cy t (ns ! k) \<longrightarrow>
        (if k < c_n ?h then compareCandidates ?h (candidateOf cx cy t k (ns ! k)) < 0
         else compareCandidates ?h (candidateOf cx cy t k (ns ! k)) \<le> 0)"
  proof (intro allI impI)
    fix k assume k: "k < length ns" and hk: "hittable cx cy t (ns ! k)"
    let ?c = "candidateOf cx cy t k (ns ! k)"
    have "?c \<in> set ?cs" using collect_complete [OF k hk, of 0] by simp
    then have "?c \<in> set ys \<or> ?c = ?h \<or> ?c \<in> set zs"
      by (subst (asm) split) auto
    then show "if k < c_n ?h then compareCandidates ?h ?c < 0
         else compareCandidates ?h ?c \<le> 0"
    proof (elim disjE)
      assume m: "?c \<in> set ys"
      then have "c_n ?c < c_n ?h" using inc by (auto simp: sorted_wrt_append)
      then have "k < c_n ?h" by (simp add: candidateOf_def)
      with before m show ?thesis by simp
    next
      assume e: "?c = ?h"
      have "c_n ?c = k" by (simp add: candidateOf_def)
      then have "c_n ?h = k" using e by simp
      moreover have "compareCandidates ?h ?h \<le> 0" by (simp add: compare_le)
      ultimately show ?thesis using e by simp
    next
      assume m: "?c \<in> set zs"
      then have "c_n ?h < c_n ?c" using inc by (auto simp: sorted_wrt_append)
      then have "\<not> k < c_n ?h" by (simp add: candidateOf_def)
      with after m show ?thesis by simp
    qed
  qed
  with pick hi hh heq show ?thesis by metis
qed

lemma collect_empty_iff:
  "collectCandidates cx cy t 0 ns = [] \<longleftrightarrow> (\<forall>k<length ns. \<not> hittable cx cy t (ns ! k))"
proof
  assume e: "collectCandidates cx cy t 0 ns = []"
  show "\<forall>k<length ns. \<not> hittable cx cy t (ns ! k)"
  proof (intro allI impI notI)
    fix k assume "k < length ns" "hittable cx cy t (ns ! k)"
    from collect_complete [OF this, of 0] e show False by simp
  qed
next
  assume n: "\<forall>k<length ns. \<not> hittable cx cy t (ns ! k)"
  show "collectCandidates cx cy t 0 ns = []"
  proof (rule ccontr)
    assume "collectCandidates cx cy t 0 ns \<noteq> []"
    then obtain c where "c \<in> set (collectCandidates cx cy t 0 ns)"
      by (cases "collectCandidates cx cy t 0 ns") auto
    from collect_sound [OF this] n show False by auto
  qed
qed

lemma attemptHit_by_pick:
  "attemptHit st now tnow cx cy =
     (case attemptHitPick cx cy (getSongTimeMs st now) (noteStates st) of
        None \<Rightarrow> toast st tnow
      | Some i \<Rightarrow>
          applyJudgment st tnow i (getSongTimeMs st now)
            (getSongTimeMs st now - tMs (noteStates st ! i))
            (judge (getSongTimeMs st now - tMs (noteStates st ! i))))"
  by (simp add: attemptHit_def attemptHitPick_def Let_def)





subsection \<open>Overlap selection\<close>

text \<open>
  Claim C1. \<^verbatim>\<open>attemptHit\<close> judges the note that \<open>attemptHitPick\<close> returns and only shows a
  toast when there is none. A note is a candidate when it is pending, within 160 ms of
  the query time and the query point is within its radius. With no candidate nothing is
  picked; otherwise the picked note is a candidate, and no candidate has a
  lexicographically smaller pair of absolute timing error and squared distance.
\<close>

theorem attemptHit_selects_minimum:
  "attemptHit st now tnow cx cy =
     (case attemptHitPick cx cy (getSongTimeMs st now) (noteStates st) of
        None \<Rightarrow> toast st tnow
      | Some i \<Rightarrow>
          applyJudgment st tnow i (getSongTimeMs st now)
            (getSongTimeMs st now - tMs (noteStates st ! i))
            (judge (getSongTimeMs st now - tMs (noteStates st ! i)))) \<and>
   (hittable cx cy t n \<longleftrightarrow>
      nstate n = Pending \<and> \<bar>t - tMs n\<bar> \<le> 160 \<and>
      (cx - px n) * (cx - px n) + (cy - py n) * (cy - py n) \<le> (radius n)\<^sup>2) \<and>
   (attemptHitPick cx cy t ns = None \<longleftrightarrow> (\<forall>k<length ns. \<not> hittable cx cy t (ns ! k))) \<and>
   (\<forall>i. attemptHitPick cx cy t ns = Some i \<longrightarrow>
      i < length ns \<and> hittable cx cy t (ns ! i) \<and>
      (\<forall>k<length ns. hittable cx cy t (ns ! k) \<longrightarrow>
         \<not> (\<bar>t - tMs (ns ! k)\<bar> < \<bar>t - tMs (ns ! i)\<bar> \<or>
            (\<bar>t - tMs (ns ! k)\<bar> = \<bar>t - tMs (ns ! i)\<bar> \<and>
             dist2 cx cy (px (ns ! k)) (py (ns ! k))
               < dist2 cx cy (px (ns ! i)) (py (ns ! i))))))"
proof (intro conjI allI impI)
  show "attemptHit st now tnow cx cy =
     (case attemptHitPick cx cy (getSongTimeMs st now) (noteStates st) of
        None \<Rightarrow> toast st tnow
      | Some i \<Rightarrow>
          applyJudgment st tnow i (getSongTimeMs st now)
            (getSongTimeMs st now - tMs (noteStates st ! i))
            (judge (getSongTimeMs st now - tMs (noteStates st ! i))))"
    by (rule attemptHit_by_pick)
next
  show "hittable cx cy t n \<longleftrightarrow>
      nstate n = Pending \<and> \<bar>t - tMs n\<bar> \<le> 160 \<and>
      (cx - px n) * (cx - px n) + (cy - py n) * (cy - py n) \<le> (radius n)\<^sup>2"
    by (simp add: hittable_def HIT_WINDOW_MS_def dist2_def Let_def power2_eq_square)
next
  show "attemptHitPick cx cy t ns = None \<longleftrightarrow> (\<forall>k<length ns. \<not> hittable cx cy t (ns ! k))"
    using collect_empty_iff [of cx cy t ns] by (simp add: attemptHitPick_def Let_def)
next
  fix i assume p: "attemptHitPick cx cy t ns = Some i"
  then have ne: "collectCandidates cx cy t 0 ns \<noteq> []"
    by (auto simp: attemptHitPick_def Let_def split: if_splits)
  from pick_char [OF ne] p have
    i: "i < length ns" "hittable cx cy t (ns ! i)" and
    best: "\<forall>k<length ns. hittable cx cy t (ns ! k) \<longrightarrow>
        compareCandidates (candidateOf cx cy t i (ns ! i))
          (candidateOf cx cy t k (ns ! k)) \<le> 0"
    by (auto split: if_splits)
  show "i < length ns" by (rule i)
  show "hittable cx cy t (ns ! i)" by (rule i)
  fix k assume "k < length ns" "hittable cx cy t (ns ! k)"
  with best have "compareCandidates (candidateOf cx cy t i (ns ! i))
          (candidateOf cx cy t k (ns ! k)) \<le> 0"
    by simp
  then show "\<not> (\<bar>t - tMs (ns ! k)\<bar> < \<bar>t - tMs (ns ! i)\<bar> \<or>
            (\<bar>t - tMs (ns ! k)\<bar> = \<bar>t - tMs (ns ! i)\<bar> \<and>
             dist2 cx cy (px (ns ! k)) (py (ns ! k))
               < dist2 cx cy (px (ns ! i)) (py (ns ! i))))"
    by (auto simp: compare_le candidateOf_def)
qed

theorem attemptHit_selects_minimum_witness:
  "attemptHitPick 105 100 1030 [exampleNote 1000 100 100, exampleNote 1050 110 100] = Some 1 \<and>
   hittable 105 100 1030 (exampleNote 1000 100 100) \<and>
   hittable 105 100 1030 (exampleNote 1050 110 100) \<and>
   \<not> \<bar>1030 - tMs (exampleNote 1000 100 100)\<bar> < \<bar>1030 - tMs (exampleNote 1050 110 100)\<bar> \<and>
   attemptHitPick 500 500 1030 [exampleNote 1000 100 100, exampleNote 1050 110 100] = None"
  using attemptHit_selects_minimum
      [of STATE_init 0 0 105 100 1030 "exampleNote 1000 100 100"
          "[exampleNote 1000 100 100, exampleNote 1050 110 100]"]
    attemptHit_selects_minimum
      [of STATE_init 0 0 500 500 1030 "exampleNote 1000 100 100"
          "[exampleNote 1000 100 100, exampleNote 1050 110 100]"]
  by (simp add: eval_simps)

subsection \<open>An activation without a target\<close>

text \<open>
  Claim C7. When no note is a candidate, \<^verbatim>\<open>attemptHit\<close> picks nothing and changes the
  state only in \<open>toastTimer\<close>: the notes, the score, the combo, the maximum combo, the
  tier counts, \<open>totalJudged\<close> and \<open>totalHit\<close> are as before.
\<close>

theorem attemptHit_empty_no_mutation:
  assumes "\<forall>k<length (noteStates st).
             \<not> hittable cx cy (getSongTimeMs st now) (noteStates st ! k)"
  shows "attemptHitPick cx cy (getSongTimeMs st now) (noteStates st) = None \<and>
     attemptHit st now tnow cx cy = st\<lparr>toastTimer := tnow\<rparr> \<and>
     noteStates (attemptHit st now tnow cx cy) = noteStates st \<and>
     score (attemptHit st now tnow cx cy) = score st \<and>
     combo (attemptHit st now tnow cx cy) = combo st \<and>
     maxCombo (attemptHit st now tnow cx cy) = maxCombo st \<and>
     pCnt (attemptHit st now tnow cx cy) = pCnt st \<and>
     gCnt (attemptHit st now tnow cx cy) = gCnt st \<and>
     oCnt (attemptHit st now tnow cx cy) = oCnt st \<and>
     mCnt (attemptHit st now tnow cx cy) = mCnt st \<and>
     totalJudged (attemptHit st now tnow cx cy) = totalJudged st \<and>
     totalHit (attemptHit st now tnow cx cy) = totalHit st"
proof -
  have e: "collectCandidates cx cy (getSongTimeMs st now) 0 (noteStates st) = []"
    using assms by (simp add: collect_empty_iff)
  then have "attemptHitPick cx cy (getSongTimeMs st now) (noteStates st) = None"
    by (simp add: attemptHitPick_def)
  moreover have "attemptHit st now tnow cx cy = st\<lparr>toastTimer := tnow\<rparr>"
    using e by (simp add: attemptHit_def toast_def)
  ultimately show ?thesis by simp
qed

theorem attemptHit_empty_no_mutation_witness:
  "\<not> hittable 500 500
       (getSongTimeMs (STATE_init\<lparr>running := True, combo := 3,
          noteStates := [exampleNote 1000 100 100]\<rparr>) 1000)
       (exampleNote 1000 100 100) \<and>
   attemptHit (STATE_init\<lparr>running := True, combo := 3,
        noteStates := [exampleNote 1000 100 100]\<rparr>) 1000 1001 500 500
     = STATE_init\<lparr>running := True, combo := 3, toastTimer := 1001,
         noteStates := [exampleNote 1000 100 100]\<rparr> \<and>
   combo (attemptHit (STATE_init\<lparr>running := True, combo := 3,
        noteStates := [exampleNote 1000 100 100]\<rparr>) 1000 1001 500 500) = 3 \<and>
   noteStates (attemptHit (STATE_init\<lparr>running := True, combo := 3,
        noteStates := [exampleNote 1000 100 100]\<rparr>) 1000 1001 500 500)
     = [exampleNote 1000 100 100]"
proof -
  let ?st = "STATE_init\<lparr>running := True, combo := 3, noteStates := [exampleNote 1000 100 100]\<rparr>"
  have n: "\<not> hittable 500 500 (getSongTimeMs ?st 1000) (exampleNote 1000 100 100)"
    by (simp add: eval_simps)
  then have h: "\<forall>k<length (noteStates ?st).
      \<not> hittable 500 500 (getSongTimeMs ?st 1000) (noteStates ?st ! k)"
    by (simp add: STATE_init_def)
  from attemptHit_empty_no_mutation [OF h, of 1001] n show ?thesis
    by (simp add: STATE_init_def)
qed

subsection \<open>Full ties\<close>



subsection \<open>The auto-miss sweep\<close>

lemma loop_char:
  "processAutoMissesLoop t ns st =
     (map (missNote t) ns,
      st\<lparr>combo := (if overdue t ns = 0 then combo st else 0),
         mCnt := mCnt st + overdue t ns,
         totalJudged := totalJudged st + overdue t ns\<rparr>)"
  by (induction ns arbitrary: st) (simp_all add: missNote_def overdue_def Let_def)

lemma processAutoMisses_char:
  "processAutoMisses st t =
     st\<lparr>combo := (if overdue t (noteStates st) = 0 then combo st else 0),
        mCnt := mCnt st + overdue t (noteStates st),
        totalJudged := totalJudged st + overdue t (noteStates st),
        noteStates := map (missNote t) (noteStates st)\<rparr>"
  by (simp add: processAutoMisses_def loop_char)

lemma overdue_after: "overdue t (map (missNote t) ns) = 0"
  by (auto simp: overdue_def missNote_def filter_empty_conv)

lemma missNote_idem: "missNote t (missNote t n) = missNote t n"
  by (simp add: missNote_def)

lemma processAutoMisses_idem: "processAutoMisses (processAutoMisses st t) t = processAutoMisses st t"
  by (simp add: processAutoMisses_char overdue_after missNote_idem)

text \<open>
  Claim C3. At elapsed time \<open>t\<close>, \<^verbatim>\<open>processAutoMisses\<close> turns exactly the pending notes
  with \<open>t > tMs + 160\<close> into misses judged at \<open>t\<close> with offset \<open>t - tMs\<close> and leaves every
  other note as it is; the miss count and \<open>totalJudged\<close> grow by 1 for each such note, the
  combo becomes 0 when there is one, and the score, the maximum combo, \<open>totalHit\<close> and the
  hit counts stay. Sweeping again at the same time changes nothing.
\<close>

theorem processAutoMisses_sweep:
  "length (noteStates (processAutoMisses st t)) = length (noteStates st) \<and>
   (\<forall>k<length (noteStates st).
      noteStates (processAutoMisses st t) ! k =
        (if nstate (noteStates st ! k) = Pending \<and> t > tMs (noteStates st ! k) + 160
         then (noteStates st ! k)\<lparr>nstate := Miss, judgedAtMs := Some t,
                deltaMs := Some (t - tMs (noteStates st ! k)), njudgment := Some J_M\<rparr>
         else noteStates st ! k)) \<and>
   mCnt (processAutoMisses st t) = mCnt st +
     length (filter (\<lambda>n. nstate n = Pending \<and> t > tMs n + 160) (noteStates st)) \<and>
   totalJudged (processAutoMisses st t) = totalJudged st +
     length (filter (\<lambda>n. nstate n = Pending \<and> t > tMs n + 160) (noteStates st)) \<and>
   combo (processAutoMisses st t) =
     (if \<exists>n \<in> set (noteStates st). nstate n = Pending \<and> t > tMs n + 160 then 0 else combo st) \<and>
   score (processAutoMisses st t) = score st \<and>
   maxCombo (processAutoMisses st t) = maxCombo st \<and>
   totalHit (processAutoMisses st t) = totalHit st \<and>
   pCnt (processAutoMisses st t) = pCnt st \<and>
   gCnt (processAutoMisses st t) = gCnt st \<and>
   oCnt (processAutoMisses st t) = oCnt st \<and>
   processAutoMisses (processAutoMisses st t) t = processAutoMisses st t"
proof -
  have od: "overdue t (noteStates st) =
      length (filter (\<lambda>n. nstate n = Pending \<and> t > tMs n + 160) (noteStates st))"
    by (simp add: overdue_def HIT_WINDOW_MS_def)
  have ex: "(overdue t (noteStates st) = 0) \<longleftrightarrow>
      \<not> (\<exists>n \<in> set (noteStates st). nstate n = Pending \<and> t > tMs n + 160)"
    unfolding od by (simp add: filter_empty_conv)
  have nth: "\<forall>k<length (noteStates st).
      noteStates (processAutoMisses st t) ! k =
        (if nstate (noteStates st ! k) = Pending \<and> t > tMs (noteStates st ! k) + 160
         then (noteStates st ! k)\<lparr>nstate := Miss, judgedAtMs := Some t,
                deltaMs := Some (t - tMs (noteStates st ! k)), njudgment := Some J_M\<rparr>
         else noteStates st ! k)"
    by (simp add: processAutoMisses_char missNote_def HIT_WINDOW_MS_def)
  have cnt: "mCnt (processAutoMisses st t) = mCnt st +
      length (filter (\<lambda>n. nstate n = Pending \<and> t > tMs n + 160) (noteStates st))"
    "totalJudged (processAutoMisses st t) = totalJudged st +
      length (filter (\<lambda>n. nstate n = Pending \<and> t > tMs n + 160) (noteStates st))"
    unfolding od [symmetric] by (simp_all add: processAutoMisses_char)
  have "combo (processAutoMisses st t) = (if overdue t (noteStates st) = 0 then combo st else 0)"
    by (simp add: processAutoMisses_char)
  then have cmb: "combo (processAutoMisses st t) =
     (if \<exists>n \<in> set (noteStates st). nstate n = Pending \<and> t > tMs n + 160 then 0 else combo st)"
    unfolding ex by auto
  have rest: "length (noteStates (processAutoMisses st t)) = length (noteStates st)"
    "score (processAutoMisses st t) = score st"
    "maxCombo (processAutoMisses st t) = maxCombo st"
    "totalHit (processAutoMisses st t) = totalHit st"
    "pCnt (processAutoMisses st t) = pCnt st"
    "gCnt (processAutoMisses st t) = gCnt st"
    "oCnt (processAutoMisses st t) = oCnt st"
    by (simp_all add: processAutoMisses_char)
  show ?thesis
    using nth cnt cmb rest processAutoMisses_idem [of st t] by blast
qed

theorem processAutoMisses_sweep_witness:
  "noteStates (processAutoMisses
      (STATE_init\<lparr>combo := 4, maxCombo := 4,
         noteStates := [exampleNote 500 100 100, exampleNote 600 200 100]\<rparr>) 661)
     = [(exampleNote 500 100 100)\<lparr>nstate := Miss, judgedAtMs := Some 661,
          deltaMs := Some 161, njudgment := Some J_M\<rparr>, exampleNote 600 200 100] \<and>
   combo (processAutoMisses
      (STATE_init\<lparr>combo := 4, maxCombo := 4,
         noteStates := [exampleNote 500 100 100, exampleNote 600 200 100]\<rparr>) 661) = 0 \<and>
   mCnt (processAutoMisses
      (STATE_init\<lparr>combo := 4, maxCombo := 4,
         noteStates := [exampleNote 500 100 100, exampleNote 600 200 100]\<rparr>) 661) = 1 \<and>
   maxCombo (processAutoMisses
      (STATE_init\<lparr>combo := 4, maxCombo := 4,
         noteStates := [exampleNote 500 100 100, exampleNote 600 200 100]\<rparr>) 661) = 4 \<and>
   combo (processAutoMisses
      (STATE_init\<lparr>combo := 4, maxCombo := 4,
         noteStates := [exampleNote 500 100 100, exampleNote 600 200 100]\<rparr>) 660) = 4"
  using processAutoMisses_sweep
      [of "STATE_init\<lparr>combo := 4, maxCombo := 4,
         noteStates := [exampleNote 500 100 100, exampleNote 600 200 100]\<rparr>" 661]
    processAutoMisses_sweep
      [of "STATE_init\<lparr>combo := 4, maxCombo := 4,
         noteStates := [exampleNote 500 100 100, exampleNote 600 200 100]\<rparr>" 660]
  by (simp add: eval_simps processAutoMisses_def HIT_WINDOW_MS_def)

text \<open>
  The four counts sum to \<open>totalJudged\<close> after a reset, and judging a hit or sweeping
  misses keeps it so.
\<close>

lemma applyJudgment_counts:
  "pCnt st + gCnt st + oCnt st + mCnt st = totalJudged st \<Longrightarrow>
   pCnt (applyJudgment st tnow i ja d j) + gCnt (applyJudgment st tnow i ja d j)
     + oCnt (applyJudgment st tnow i ja d j) + mCnt (applyJudgment st tnow i ja d j)
   = totalJudged (applyJudgment st tnow i ja d j)"
  by (simp add: applyJudgment_def toast_def Let_def)

lemma processAutoMisses_counts:
  "pCnt st + gCnt st + oCnt st + mCnt st = totalJudged st \<Longrightarrow>
   pCnt (processAutoMisses st t) + gCnt (processAutoMisses st t)
     + oCnt (processAutoMisses st t) + mCnt (processAutoMisses st t)
   = totalJudged (processAutoMisses st t)"
  by (simp add: processAutoMisses_char)

lemma resetGameState_counts:
  "resetGameState st = Inr st' \<Longrightarrow>
   pCnt st' + gCnt st' + oCnt st' + mCnt st' = totalJudged st' \<and> totalJudged st' = 0"
  by (auto simp: resetGameState_def rebuildRuntimeNotes_def Let_def split: option.splits)

subsection \<open>The end of a run\<close>

lemma processAutoMisses_flags:
  "running (processAutoMisses st t) = running st"
  "paused (processAutoMisses st t) = paused st"
  "ended (processAutoMisses st t) = ended st"
  by (simp_all add: processAutoMisses_char)

lemma last_missNote:
  "ns \<noteq> [] \<Longrightarrow> tMs (last (map (missNote t) ns)) = tMs (last ns)"
  by (simp add: last_map missNote_def)

lemma countNotesLeft_zero:
  "countNotesLeft st = 0 \<longleftrightarrow> (\<forall>n \<in> set (noteStates st). nstate n \<noteq> Pending)"
  by (simp add: countNotesLeft_def filter_empty_conv)

lemma tick_live:
  assumes "running st" "\<not> paused st" "\<not> ended st" "noteStates st \<noteq> []"
  shows "tick st now tnow =
     (if getSongTimeMs st now > tMs (last (noteStates st)) + 160 + 260 + 200 \<and>
         countNotesLeft (processAutoMisses st (getSongTimeMs st now)) = 0
      then Inr ((processAutoMisses st (getSongTimeMs st now))\<lparr>ended := True, toastTimer := tnow\<rparr>)
      else Inr (processAutoMisses st (getSongTimeMs st now)))"
proof -
  let ?t = "getSongTimeMs st now"
  let ?st1 = "processAutoMisses st ?t"
  have ns: "noteStates ?st1 = map (missNote ?t) (noteStates st)"
    by (simp add: processAutoMisses_char)
  then have ne: "noteStates ?st1 \<noteq> []" using assms(4) by simp
  then obtain l ls where r: "rev (noteStates ?st1) = l # ls"
    by (cases "rev (noteStates ?st1)") auto
  then have "l = last (noteStates ?st1)"
    using ne by (metis last_rev list.sel(1) rev_rev_ident hd_rev)
  then have l: "tMs l = tMs (last (noteStates st))"
    using ns last_missNote [OF assms(4)] by simp
  show ?thesis
    using assms(1-3) r l
    by (simp add: tick_def Let_def toast_def HIT_WINDOW_MS_def AFTER_MS_def)
qed

text \<open>
  Claim C8. In a simulation step of a live run (running, not paused, not yet ended, with
  at least one note) \<^verbatim>\<open>tick\<close> sweeps the overdue notes and then sets \<open>ended\<close> exactly when
  the elapsed time exceeds the time of the last note by more than \<open>160 + 260 + 200\<close> and
  no note is pending; outside a live run it leaves the state as it is. Once \<open>ended\<close> is
  set, the mouse, touch and key handlers return the state unchanged.
\<close>

theorem tick_end_condition:
  "(running st \<and> \<not> paused st \<and> \<not> ended st \<and> noteStates st \<noteq> [] \<longrightarrow>
      (\<exists>st'. tick st now tnow = Inr st' \<and>
         noteStates st' = noteStates (processAutoMisses st (getSongTimeMs st now)) \<and>
         (ended st' \<longleftrightarrow>
            getSongTimeMs st now > tMs (last (noteStates st)) + 160 + 260 + 200 \<and>
            (\<forall>n \<in> set (noteStates st'). nstate n \<noteq> Pending)))) \<and>
   (\<not> (running st \<and> \<not> paused st \<and> \<not> ended st) \<longrightarrow> tick st now tnow = Inr st) \<and>
   (ended st \<longrightarrow>
      mousedown st now tnow button clientX clientY rectLeft rectTop = st \<and>
      touchstart st now tnow clientX clientY rectLeft rectTop = st \<and>
      keydown st now tnow repeat code = st)"
proof (intro conjI impI)
  assume a: "running st \<and> \<not> paused st \<and> \<not> ended st \<and> noteStates st \<noteq> []"
  let ?st1 = "processAutoMisses st (getSongTimeMs st now)"
  have e: "\<not> ended ?st1" using a by (simp add: processAutoMisses_flags)
  have t: "tick st now tnow =
     (if getSongTimeMs st now > tMs (last (noteStates st)) + 160 + 260 + 200 \<and>
         countNotesLeft ?st1 = 0
      then Inr (?st1\<lparr>ended := True, toastTimer := tnow\<rparr>)
      else Inr ?st1)"
    using a by (intro tick_live) simp_all
  show "\<exists>st'. tick st now tnow = Inr st' \<and>
         noteStates st' = noteStates ?st1 \<and>
         (ended st' \<longleftrightarrow>
            getSongTimeMs st now > tMs (last (noteStates st)) + 160 + 260 + 200 \<and>
            (\<forall>n \<in> set (noteStates st'). nstate n \<noteq> Pending))"
  proof (cases "getSongTimeMs st now > tMs (last (noteStates st)) + 160 + 260 + 200 \<and>
         countNotesLeft ?st1 = 0")
    case True
    then have "tick st now tnow = Inr (?st1\<lparr>ended := True, toastTimer := tnow\<rparr>)"
      unfolding t by (rule if_P)
    moreover have "\<forall>n \<in> set (noteStates ?st1). nstate n \<noteq> Pending"
      using True by (simp add: countNotesLeft_zero)
    ultimately show ?thesis using True by simp
  next
    case False
    then have "tick st now tnow = Inr ?st1" unfolding t by (rule if_not_P)
    moreover have "\<not> (getSongTimeMs st now > tMs (last (noteStates st)) + 160 + 260 + 200 \<and>
        (\<forall>n \<in> set (noteStates ?st1). nstate n \<noteq> Pending))"
      using False by (simp add: countNotesLeft_zero)
    ultimately show ?thesis using e by simp
  qed
next
  assume "\<not> (running st \<and> \<not> paused st \<and> \<not> ended st)"
  then show "tick st now tnow = Inr st" by (auto simp: tick_def Let_def)
next
  assume "ended st"
  then show "mousedown st now tnow button clientX clientY rectLeft rectTop = st"
    by (simp add: mousedown_def)
next
  assume "ended st"
  then show "touchstart st now tnow clientX clientY rectLeft rectTop = st"
    by (simp add: touchstart_def)
next
  assume "ended st"
  then show "keydown st now tnow repeat code = st"
    by (simp add: keydown_def Let_def)
qed

theorem tick_end_condition_witness:
  "tick (STATE_init\<lparr>running := True, noteStates := [exampleNote 1000 100 100]\<rparr>) 1621 1622
     = Inr (STATE_init\<lparr>running := True, ended := True, mCnt := 1, totalJudged := 1,
              toastTimer := 1622,
              noteStates := [(exampleNote 1000 100 100)\<lparr>nstate := Miss,
                 judgedAtMs := Some 1621, deltaMs := Some 621, njudgment := Some J_M\<rparr>]\<rparr>) \<and>
   tick (STATE_init\<lparr>running := True, noteStates := [exampleNote 1000 100 100]\<rparr>) 1620 1622
     = Inr (STATE_init\<lparr>running := True, mCnt := 1, totalJudged := 1,
              noteStates := [(exampleNote 1000 100 100)\<lparr>nstate := Miss,
                 judgedAtMs := Some 1620, deltaMs := Some 620, njudgment := Some J_M\<rparr>]\<rparr>) \<and>
   tick (STATE_init\<lparr>noteStates := [exampleNote 1000 100 100]\<rparr>) 1621 1622
     = Inr (STATE_init\<lparr>noteStates := [exampleNote 1000 100 100]\<rparr>) \<and>
   mousedown (STATE_init\<lparr>running := True, ended := True,
       noteStates := [exampleNote 1000 100 100]\<rparr>) 1000 1001 0 100 100 0 0
     = STATE_init\<lparr>running := True, ended := True, noteStates := [exampleNote 1000 100 100]\<rparr> \<and>
   touchstart (STATE_init\<lparr>running := True, ended := True,
       noteStates := [exampleNote 1000 100 100]\<rparr>) 1000 1001 100 100 0 0
     = STATE_init\<lparr>running := True, ended := True, noteStates := [exampleNote 1000 100 100]\<rparr> \<and>
   keydown (STATE_init\<lparr>running := True, ended := True,
       noteStates := [exampleNote 1000 100 100]\<rparr>) 1000 1001 False KEY_HIT
     = STATE_init\<lparr>running := True, ended := True, noteStates := [exampleNote 1000 100 100]\<rparr>"
  using tick_end_condition
      [of "STATE_init\<lparr>running := True, noteStates := [exampleNote 1000 100 100]\<rparr>" 1621 1622]
    tick_end_condition
      [of "STATE_init\<lparr>running := True, noteStates := [exampleNote 1000 100 100]\<rparr>" 1620 1622]
    tick_end_condition
      [of "STATE_init\<lparr>noteStates := [exampleNote 1000 100 100]\<rparr>" 1621 1622]
    tick_end_condition
      [of "STATE_init\<lparr>running := True, ended := True,
             noteStates := [exampleNote 1000 100 100]\<rparr>" 1000 1001 0 100 100 0 0 False KEY_HIT]
  by (simp add: eval_simps tick_def processAutoMisses_def AFTER_MS_def toast_def
      countNotesLeft_def)

subsection \<open>Resizing the viewport\<close>

lemma resizeCanvas_all_pending:
  assumes "beatmap st = Some bm"
  shows "\<exists>st'. resizeCanvas st w h d = Inr st' \<and>
     length (noteStates st') = length (bm_notes bm) \<and>
     (\<forall>n \<in> set (noteStates st').
        nstate n = Pending \<and> judgedAtMs n = None \<and> deltaMs n = None \<and> njudgment n = None) \<and>
     totalJudged st' = totalJudged st \<and> mCnt st' = mCnt st \<and> combo st' = combo st \<and>
     running st' = running st"
  using assms
  by (auto simp: resizeCanvas_def rebuildRuntimeNotes_def makeRuntimeNote_def Let_def)

text \<open>
  Claim C2. \<^verbatim>\<open>resizeCanvas\<close> recomputes the position and radius of every note by
  rebuilding the notes with \<^verbatim>\<open>makeRuntimeNote\<close>, which also makes each note pending and
  clears its judgment fields. In a run at 800 by 600 whose single note was hit at 1010,
  a resize to 1024 by 768 returns the note to pending with no judgment, while the score,
  the combo and the counters keep the hit.
\<close>

theorem resizeCanvas_resets_judged_notes:
  "resizeCanvas
     (STATE_init\<lparr>running := True, score := 300, combo := 1, maxCombo := 1, pCnt := 1,
        totalJudged := 1, totalHit := 1,
        beatmap := Some \<lparr>title = ''chart'', durationMs = 3000,
          bm_notes = [\<lparr>def_tMs = 1000, xN = 1 / 2, yN = 1 / 2, rN = None\<rparr>]\<rparr>,
        noteStates := [\<lparr>tMs = 1000, px = 400, py = 300, radius = 33, nstate = Hit,
          judgedAtMs = Some 1010, deltaMs = Some 10, njudgment = Some J_P\<rparr>],
        cssW := 800, cssH := 600\<rparr>)
     1024 768 1
   = Inr (STATE_init\<lparr>running := True, score := 300, combo := 1, maxCombo := 1, pCnt := 1,
        totalJudged := 1, totalHit := 1,
        beatmap := Some \<lparr>title = ''chart'', durationMs = 3000,
          bm_notes = [\<lparr>def_tMs = 1000, xN = 1 / 2, yN = 1 / 2, rN = None\<rparr>]\<rparr>,
        noteStates := [\<lparr>tMs = 1000, px = 512, py = 384, radius = 34, nstate = Pending,
          judgedAtMs = None, deltaMs = None, njudgment = None\<rparr>],
        cssW := 1024, cssH := 768\<rparr>)"
  by (simp add: resizeCanvas_def rebuildRuntimeNotes_def makeRuntimeNote_def STATE_init_def
      Let_def lerp_def clamp_def BASE_RADIUS_PX_def)

end
